theory Spec2Isabelle
  imports Main "HOL-Library.Sublist"
begin

section \<open>Data model of \<^verbatim>\<open>buy_assistant.py\<close>\<close>

text \<open>
  The pydantic classes \<^verbatim>\<open>CategoryResponse\<close> and \<^verbatim>\<open>BuyAssistantResponse\<close>: the plan
  that the output parser hands to the pipeline.
\<close>

record category_response =
  name :: string
  questions :: "string list"

record buy_assistant_response =
  message :: string
  categories :: "category_response list"

text \<open>
  The exceptions the pipeline can raise: \<^verbatim>\<open>IndexError\<close> from a list indexing,
  \<^verbatim>\<open>KeyError\<close> from a dictionary lookup, the two failures of the HTTP call
  (\<^verbatim>\<open>requests.get\<close> raising, \<^verbatim>\<open>r.json()\<close> raising), and the two errors of
  \<^verbatim>\<open>%\<close>-formatting, which the logging handler keeps to itself.
\<close>

datatype error = IndexError | KeyError string | RequestException | JSONDecodeError
  | TypeError | ValueError

text \<open>
  The dictionary appended to \<^verbatim>\<open>categories\<close> in step 3. The similarity score is a
  float that the code stores and never inspects: its type is a parameter.
\<close>

record 's category =
  category_raw :: string
  category_id :: string
  category_name :: string
  domain_id :: string
  similarity_score :: 's

text \<open>
  The dictionary built for every raw search result in step 4. Its keys
  \<^verbatim>\<open>category_id\<close> and \<^verbatim>\<open>domain_id\<close> carry the prefix \<open>listing_\<close> here, since a
  record field name is global.
\<close>

record listing =
  item_id :: string
  title :: string
  permalink :: string
  thumbnail :: string
  listing_category_id :: string
  listing_domain_id :: string

text \<open>An element of \<^verbatim>\<open>search_results\<close>: key \<^verbatim>\<open>category_id\<close> and key \<^verbatim>\<open>results\<close>.\<close>

record search_result =
  batch_category_id :: string
  results :: "listing list"

text \<open>
  A carousel after step 5 is \<^verbatim>\<open>{**carousel, **category}\<close>: the fields of the category
  and \<^verbatim>\<open>items\<close>. Step 6 adds the key \<^verbatim>\<open>questions\<close>.
\<close>

record 's carousel = "'s category" +
  items :: "listing list"

record 's joined_carousel = "'s carousel" +
  carousel_questions :: "string list"

record 's response =
  response_message :: string
  carousels :: "'s joined_carousel list"

text \<open>
  What the run does besides returning, in order: the calls of \<^verbatim>\<open>logging.warning\<close>, each
  given by the category name it is passed; the URLs requested; the warning records that
  the handler emits; and the calls whose message the handler cannot format, which it
  reports on the error stream instead (message and arguments). The informational
  messages of the six steps are left out.
\<close>

record trace =
  warnings :: "string list"
  requests :: "string list"
  emitted :: "string list"
  logging_errors :: "(string \<times> string list) list"

text \<open>A raw search result is a JSON object, read as a dictionary.\<close>

type_synonym raw_result = "string \<rightharpoonup> string"

text \<open>
  What \<^verbatim>\<open>requests.get(url)\<close> followed by \<^verbatim>\<open>r.json()["results"]\<close> can give: the call
  raises, the body is not JSON, the object has no \<^verbatim>\<open>results\<close> key, or the list.
\<close>

datatype reply = ConnectionFailed | MalformedBody | NoResults | Results "raw_result list"

section \<open>Python primitives\<close>

definition ITEMS_BY_CAROUSEL :: nat where
  "ITEMS_BY_CAROUSEL = 5"

definition newline :: char where
  "newline = CHR 0x0A"

text \<open>\<^verbatim>\<open>xs[i]\<close> for a non-negative index: out of range raises \<^verbatim>\<open>IndexError\<close>.\<close>

definition index :: "'a list \<Rightarrow> nat \<Rightarrow> error + 'a" where
  "index xs i = (if i < length xs then Inr (xs ! i) else Inl IndexError)"

text \<open>\<^verbatim>\<open>s.split(sep)\<close> for a one-character separator: one more part than separators.\<close>

fun str_split :: "char \<Rightarrow> string \<Rightarrow> string list" where
  "str_split sep [] = [[]]"
| "str_split sep (c # cs) =
     (if c = sep then [] # str_split sep cs
      else (case str_split sep cs of [] \<Rightarrow> [[c]] | w # ws \<Rightarrow> (c # w) # ws))"

text \<open>
  \<^verbatim>\<open>s.replace(old, new)\<close>: every non-overlapping occurrence, left to right; an empty
  \<^verbatim>\<open>old\<close> matches before every character and at the end.
\<close>

function str_replace :: "string \<Rightarrow> string \<Rightarrow> string \<Rightarrow> string" where
  "str_replace old new [] = (if old = [] then new else [])"
| "str_replace old new (c # cs) =
     (if old = [] then new @ concat (map (\<lambda>x. x # new) (c # cs))
      else if prefix old (c # cs) then new @ str_replace old new (drop (length old) (c # cs))
      else c # str_replace old new cs)"
  by pat_completeness auto
termination
  by (relation "measure (\<lambda>(old, new, s). length s)") (auto simp: neq_Nil_conv)

text \<open>
  \<^verbatim>\<open>msg % args\<close> for a tuple of strings, with the conversions \<^verbatim>\<open>%s\<close> and \<^verbatim>\<open>%%\<close>: a
  conversion without an argument left and an argument without a conversion both raise
  \<^verbatim>\<open>TypeError\<close>; any other conversion character is outside this model and gives
  \<^verbatim>\<open>ValueError\<close>.
\<close>

fun percent_format :: "string \<Rightarrow> string list \<Rightarrow> error + string" where
  "percent_format [] args = (if args = [] then Inr [] else Inl TypeError)"
| "percent_format [c] args =
     (if c = CHR ''%'' then Inl ValueError
      else if args = [] then Inr [c] else Inl TypeError)"
| "percent_format (c # d # cs) args =
     (if c \<noteq> CHR ''%'' then
        (case percent_format (d # cs) args of Inl e \<Rightarrow> Inl e | Inr r \<Rightarrow> Inr (c # r))
      else if d = CHR ''%'' then
        (case percent_format cs args of Inl e \<Rightarrow> Inl e | Inr r \<Rightarrow> Inr (CHR ''%'' # r))
      else if d = CHR ''s'' then
        (case args of
           [] \<Rightarrow> Inl TypeError
         | a # as \<Rightarrow>
             (case percent_format cs as of Inl e \<Rightarrow> Inl e | Inr r \<Rightarrow> Inr (a @ r)))
      else Inl ValueError)"

text \<open>
  \<^verbatim>\<open>LogRecord.getMessage\<close>: the message is formatted only when there are arguments.
\<close>

definition get_message :: "string \<Rightarrow> string list \<Rightarrow> error + string" where
  "get_message msg args = (if args = [] then Inr msg else percent_format msg args)"

text \<open>
  \<^verbatim>\<open>logging.warning(msg, arg)\<close> under the configuration of the module (level
  \<^verbatim>\<open>INFO\<close>, one stream handler): the handler formats the record and emits it; when the
  formatting raises, the handler reports the error and emits nothing. The call returns
  in both cases.
\<close>

definition logging_warning :: "string \<Rightarrow> string \<Rightarrow> trace \<Rightarrow> trace" where
  "logging_warning msg arg t =
     (case get_message msg [arg] of
        Inr m \<Rightarrow> t\<lparr>warnings := warnings t @ [arg], emitted := emitted t @ [m]\<rparr>
      | Inl e \<Rightarrow>
          t\<lparr>warnings := warnings t @ [arg],
            logging_errors := logging_errors t @ [(msg, [arg])]\<rparr>)"

section \<open>Step 3: matching with the category tree\<close>

text \<open>
  The body of the \<^verbatim>\<open>try\<close>: the first hit of the vector store (a document, given by its
  \<^verbatim>\<open>page_content\<close>, and a score), and the fields read from lines 4, 5 and 7 of the
  document, in the order the dictionary literal evaluates them.
\<close>

definition match_category :: "(string \<Rightarrow> (string \<times> 's) list) \<Rightarrow> string \<Rightarrow> error + 's category" where
  "match_category vectorstore c =
     (case index (vectorstore c) 0 of
        Inl e \<Rightarrow> Inl e
      | Inr result \<Rightarrow>
          (let ls = str_split newline (fst result) in
           case index ls 4 of
             Inl e \<Rightarrow> Inl e
           | Inr l4 \<Rightarrow>
               (case index ls 5 of
                  Inl e \<Rightarrow> Inl e
                | Inr l5 \<Rightarrow>
                    (case index ls 7 of
                       Inl e \<Rightarrow> Inl e
                     | Inr l7 \<Rightarrow>
                         Inr \<lparr>category_raw = c,
                              category_id = str_replace ''CATEGORY_ID_L3: '' '''' l4,
                              category_name = str_replace ''CATEGORY_NAME_L3: '' '''' l5,
                              domain_id = str_replace ''DOMAIN_ID: '' '''' l7,
                              similarity_score = snd result\<rparr>))))"

text \<open>
  The loop over the plan's category names: \<^verbatim>\<open>except IndexError\<close> logs a warning and
  goes on; any other exception leaves the loop.
\<close>

fun match_loop :: "(string \<Rightarrow> (string \<times> 's) list) \<Rightarrow> string list \<Rightarrow> 's category list \<Rightarrow> trace
    \<Rightarrow> (error + 's category list) \<times> trace" where
  "match_loop vectorstore [] cats t = (Inr cats, t)"
| "match_loop vectorstore (c # cs) cats t =
     (case match_category vectorstore c of
        Inr cat \<Rightarrow> match_loop vectorstore cs (cats @ [cat]) t
      | Inl IndexError \<Rightarrow>
          match_loop vectorstore cs cats (logging_warning ''Category not matched for:'' c t)
      | Inl e \<Rightarrow> (Inl e, t))"

section \<open>Step 4: calling the search API\<close>

definition search_url :: "string \<Rightarrow> string" where
  "search_url cid =
     ''http://api.mercadolibre.com/sites/MLA/search?limit=50&sort=relevance&category='' @ cid"

definition to_listing :: "raw_result \<Rightarrow> error + listing" where
  "to_listing r =
     (case r ''id'' of
        None \<Rightarrow> Inl (KeyError ''id'')
      | Some i \<Rightarrow>
          Inr \<lparr>item_id = i,
               title = (case r ''title'' of Some v \<Rightarrow> v | None \<Rightarrow> ''''),
               permalink = (case r ''permalink'' of Some v \<Rightarrow> v | None \<Rightarrow> ''''),
               thumbnail = (case r ''thumbnail'' of Some v \<Rightarrow> v | None \<Rightarrow> ''''),
               listing_category_id = (case r ''category_id'' of Some v \<Rightarrow> v | None \<Rightarrow> ''''),
               listing_domain_id = (case r ''domain_id'' of Some v \<Rightarrow> v | None \<Rightarrow> '''')\<rparr>)"

text \<open>The list comprehension: the first raw result without \<^verbatim>\<open>id\<close> raises.\<close>

fun to_listings :: "raw_result list \<Rightarrow> error + listing list" where
  "to_listings [] = Inr []"
| "to_listings (r # rs) =
     (case to_listing r of
        Inl e \<Rightarrow> Inl e
      | Inr l \<Rightarrow> (case to_listings rs of Inl e \<Rightarrow> Inl e | Inr ls \<Rightarrow> Inr (l # ls)))"

text \<open>
  The body of the loop over \<^verbatim>\<open>uq_category_ids\<close>: one request, the mapping of its
  results, and the element appended to \<^verbatim>\<open>search_results\<close>.
\<close>

definition fetch_category :: "(string \<Rightarrow> reply) \<Rightarrow> string \<Rightarrow> error + search_result" where
  "fetch_category get cid =
     (case get (search_url cid) of
        ConnectionFailed \<Rightarrow> Inl RequestException
      | MalformedBody \<Rightarrow> Inl JSONDecodeError
      | NoResults \<Rightarrow> Inl (KeyError ''results'')
      | Results raws \<Rightarrow>
          (case to_listings raws of
             Inl e \<Rightarrow> Inl e
           | Inr rs \<Rightarrow> Inr \<lparr>batch_category_id = cid, results = rs\<rparr>))"

text \<open>
  The loop. Nothing catches an exception here: the first failing request ends the loop,
  and the run.
\<close>

fun fetch_loop :: "(string \<Rightarrow> reply) \<Rightarrow> string list \<Rightarrow> search_result list \<Rightarrow> trace
    \<Rightarrow> (error + search_result list) \<times> trace" where
  "fetch_loop get [] search_results t = (Inr search_results, t)"
| "fetch_loop get (cid # cids) search_results t =
     (let t' = t\<lparr>requests := requests t @ [search_url cid]\<rparr> in
      case fetch_category get cid of
        Inl e \<Rightarrow> (Inl e, t')
      | Inr b \<Rightarrow> fetch_loop get cids (search_results @ [b]) t')"

section \<open>Steps 5 and 6: building the carousels, joining the questions\<close>

text \<open>
  The body of the loop of step 5: the first batch with the category's id, its results
  with the category's domain, at most \<^verbatim>\<open>ITEMS_BY_CAROUSEL\<close> of them.
\<close>

definition build_carousel :: "search_result list \<Rightarrow> 's category \<Rightarrow> error + 's carousel" where
  "build_carousel search_results c =
     (case index (filter (\<lambda>x. batch_category_id x = category_id c) search_results) 0 of
        Inl e \<Rightarrow> Inl e
      | Inr b \<Rightarrow>
          Inr \<lparr>category_raw = category_raw c, category_id = category_id c,
               category_name = category_name c, domain_id = domain_id c,
               similarity_score = similarity_score c,
               items = take ITEMS_BY_CAROUSEL
                 (filter (\<lambda>x. listing_domain_id x = domain_id c) (results b))\<rparr>)"

fun build_loop :: "search_result list \<Rightarrow> 's category list \<Rightarrow> 's carousel list
    \<Rightarrow> error + 's carousel list" where
  "build_loop search_results [] cars = Inr cars"
| "build_loop search_results (c # cs) cars =
     (case build_carousel search_results c of
        Inl e \<Rightarrow> Inl e
      | Inr car \<Rightarrow> build_loop search_results cs (cars @ [car]))"

text \<open>
  The body of the loop of step 6: the questions of the first category of the plan with
  the carousel's \<^verbatim>\<open>category_raw\<close> as name.
\<close>

definition join_questions :: "category_response list \<Rightarrow> 's carousel \<Rightarrow> error + 's joined_carousel" where
  "join_questions cats c =
     (case index (filter (\<lambda>x. name x = category_raw c) cats) 0 of
        Inl e \<Rightarrow> Inl e
      | Inr p \<Rightarrow>
          Inr \<lparr>category_raw = category_raw c, category_id = category_id c,
               category_name = category_name c, domain_id = domain_id c,
               similarity_score = similarity_score c, items = items c,
               carousel_questions = questions p\<rparr>)"

fun join_loop :: "category_response list \<Rightarrow> 's carousel list \<Rightarrow> error + 's joined_carousel list" where
  "join_loop cats [] = Inr []"
| "join_loop cats (c # cs) =
     (case join_questions cats c of
        Inl e \<Rightarrow> Inl e
      | Inr j \<Rightarrow> (case join_loop cats cs of Inl e \<Rightarrow> Inl e | Inr js \<Rightarrow> Inr (j # js)))"

section \<open>The pipeline\<close>

text \<open>
  \<^verbatim>\<open>BuyAssistant.chat\<close> from the parsed plan on (steps 3 to 6; the prompt and the
  call of the language model come before). The vector store and the HTTP client are
  parameters. \<^verbatim>\<open>set(...)\<close> keeps one copy of every category id; its iteration
  order is not fixed by Python, and the model takes the order of \<^const>\<open>remdups\<close> (that of the last occurrences).
\<close>

definition start :: trace where
  "start = \<lparr>warnings = [], requests = [], emitted = [], logging_errors = []\<rparr>"

definition chat :: "(string \<Rightarrow> (string \<times> 's) list) \<Rightarrow> (string \<Rightarrow> reply) \<Rightarrow> buy_assistant_response
    \<Rightarrow> (error + 's response) \<times> trace" where
  "chat vectorstore get response_obj =
     (case match_loop vectorstore (map name (categories response_obj)) [] start of
        (Inl e, t) \<Rightarrow> (Inl e, t)
      | (Inr cats, t) \<Rightarrow>
          (case fetch_loop get (remdups (map category_id cats)) [] t of
             (Inl e, t') \<Rightarrow> (Inl e, t')
           | (Inr search_results, t') \<Rightarrow>
               (case build_loop search_results cats [] of
                  Inl e \<Rightarrow> (Inl e, t')
                | Inr cars \<Rightarrow>
                    (case join_loop (categories response_obj) cars of
                       Inl e \<Rightarrow> (Inl e, t')
                     | Inr js \<Rightarrow>
                         (Inr \<lparr>response_message = message response_obj, carousels = js\<rparr>,
                          t')))))"

text \<open>
  The intermediate values of a run, named for the statements below: the list
  \<^verbatim>\<open>categories\<close> after step 3, and \<^verbatim>\<open>search_results\<close> after step 4.
\<close>

definition resolved :: "(string \<Rightarrow> (string \<times> 's) list) \<Rightarrow> buy_assistant_response \<Rightarrow> 's category list" where
  "resolved vectorstore response_obj =
     (case fst (match_loop vectorstore (map name (categories response_obj)) [] start) of
        Inr cats \<Rightarrow> cats
      | Inl e \<Rightarrow> [])"

definition fetched :: "(string \<Rightarrow> (string \<times> 's) list) \<Rightarrow> (string \<Rightarrow> reply) \<Rightarrow> buy_assistant_response
    \<Rightarrow> error + search_result list" where
  "fetched vectorstore get response_obj =
     fst (fetch_loop get (remdups (map category_id (resolved vectorstore response_obj))) [] start)"

section \<open>Example inputs\<close>

text \<open>A descriptor of the category tree: eight lines, the fields on lines 4, 5 and 7.\<close>

definition descriptor :: "string \<Rightarrow> string \<Rightarrow> string \<Rightarrow> string" where
  "descriptor cid cname did =
     ''CATEGORY_ID_L1: MLA1574'' @ [newline] @ ''CATEGORY_NAME_L1: Hogar'' @ [newline] @
     ''CATEGORY_ID_L2: MLA1575'' @ [newline] @ ''CATEGORY_NAME_L2: Cocina'' @ [newline] @
     ''CATEGORY_ID_L3: '' @ cid @ [newline] @ ''CATEGORY_NAME_L3: '' @ cname @ [newline] @
     ''DOMAIN_NAME: x'' @ [newline] @ ''DOMAIN_ID: '' @ did"

definition vs_ex :: "string \<Rightarrow> (string \<times> nat) list" where
  "vs_ex q =
     (if q = ''Licuadoras'' then [(descriptor ''MLA1'' ''Licuadoras'' ''MLA-BLENDERS'', 3)]
      else if q = ''Batidoras'' then [(descriptor ''MLA1'' ''Licuadoras'' ''MLA-MIXERS'', 9)]
      else if q = ''Sartenes'' then [(descriptor ''MLA2'' ''Sartenes'' ''MLA-PANS'', 1)]
      else if q = ''Cosas'' then [(''CATEGORY_ID_L3: MLA3'', 7)]
      else [])"

definition raw_ex :: "string \<Rightarrow> string \<Rightarrow> raw_result" where
  "raw_ex i did = [''id'' \<mapsto> i, ''title'' \<mapsto> ''T'', ''domain_id'' \<mapsto> did]"

definition get_ex :: "string \<Rightarrow> reply" where
  "get_ex url =
     (if url = search_url ''MLA1''
      then Results [raw_ex ''I1'' ''MLA-BLENDERS'', raw_ex ''I2'' ''MLA-MIXERS'',
                    raw_ex ''I3'' ''MLA-BLENDERS'']
      else if url = search_url ''MLA2'' then MalformedBody
      else ConnectionFailed)"

definition get_all :: "string \<Rightarrow> reply" where
  "get_all url = Results [raw_ex ''I1'' ''MLA-BLENDERS'', raw_ex ''I2'' ''MLA-PANS'']"



definition proposal :: "string \<Rightarrow> category_response" where
  "proposal n = \<lparr>name = n, questions = [n @ ''?'', n @ ''??'']\<rparr>"

definition plan_ex :: "string list \<Rightarrow> buy_assistant_response" where
  "plan_ex ns = \<lparr>message = ''Hola'', categories = map proposal ns\<rparr>"

section \<open>The stages, in closed form\<close>

lemma match_category_error: "match_category vs c = Inl e \<Longrightarrow> e = IndexError"
  by (auto simp: match_category_def index_def Let_def split: sum.splits if_splits)

lemma match_category_raw: "match_category vs n = Inr c \<Longrightarrow> category_raw c = n"
  by (auto simp: match_category_def Let_def split: sum.splits)

lemma not_matched_unformatted:
  "get_message ''Category not matched for:'' [c] = Inl TypeError"
  by (simp add: get_message_def)

lemma logging_warning_not_matched:
  "logging_warning ''Category not matched for:'' c t =
     t\<lparr>warnings := warnings t @ [c],
       logging_errors := logging_errors t @ [(''Category not matched for:'', [c])]\<rparr>"
  by (simp add: logging_warning_def not_matched_unformatted)

lemma match_loop_eq:
  "match_loop vs ns cats t =
     (Inr (cats @ map projr (filter (\<lambda>r. \<not> isl r) (map (match_category vs) ns))),
      t\<lparr>warnings := warnings t @ filter (\<lambda>n. isl (match_category vs n)) ns,
        logging_errors := logging_errors t @
          map (\<lambda>n. (''Category not matched for:'', [n]))
            (filter (\<lambda>n. isl (match_category vs n)) ns)\<rparr>)"
proof (induction ns arbitrary: cats t)
  case Nil
  show ?case by simp
next
  case (Cons n ns)
  show ?case
  proof (cases "match_category vs n")
    case (Inl e)
    then have "e = IndexError" by (rule match_category_error)
    with Inl show ?thesis by (simp add: Cons.IH logging_warning_not_matched)
  next
    case (Inr c)
    then show ?thesis by (simp add: Cons.IH)
  qed
qed

lemma resolved_eq:
  "resolved vs plan =
     map projr (filter (\<lambda>r. \<not> isl r) (map (match_category vs) (map name (categories plan))))"
  by (simp add: resolved_def match_loop_eq)

lemma resolved_iff:
  "c \<in> set (resolved vs plan) \<longleftrightarrow>
     (\<exists>n \<in> set (map name (categories plan)). match_category vs n = Inr c)"
  by (force simp: resolved_eq image_iff split: sum.splits)

lemma to_listings_error: "to_listings raws = Inl e \<Longrightarrow> e = KeyError ''id''"
  by (induction raws arbitrary: e)
     (auto simp: to_listing_def split: sum.splits option.splits)

lemma fetch_category_error: "fetch_category get cid = Inl e \<Longrightarrow> e \<noteq> IndexError"
  by (auto simp: fetch_category_def split: reply.splits sum.splits dest: to_listings_error)

lemma fetch_category_batch:
  "fetch_category get cid = Inr b \<Longrightarrow>
     batch_category_id b = cid \<and>
     (\<exists>raws. get (search_url cid) = Results raws \<and> to_listings raws = Inr (results b))"
  by (auto simp: fetch_category_def split: reply.splits sum.splits)

lemma fetch_loop_shape:
  "\<exists>r k. k \<le> length ids \<and>
     (\<forall>t. fetch_loop get ids sr t = (r, t\<lparr>requests := requests t @ map search_url (take k ids)\<rparr>))"
proof (induction ids arbitrary: sr)
  case Nil
  show ?case by simp
next
  case (Cons cid ids)
  show ?case
  proof (cases "fetch_category get cid")
    case (Inl e)
    have "\<forall>t. fetch_loop get (cid # ids) sr t =
        (Inl e, t\<lparr>requests := requests t @ map search_url (take (Suc 0) (cid # ids))\<rparr>)"
      using Inl by simp
    then show ?thesis by (intro exI [of _ "Inl e"] exI [of _ "Suc 0"]) simp
  next
    case (Inr b)
    from Cons.IH [of "sr @ [b]"] obtain r k where k: "k \<le> length ids"
      and eq: "\<And>t. fetch_loop get ids (sr @ [b]) t =
         (r, t\<lparr>requests := requests t @ map search_url (take k ids)\<rparr>)"
      by blast
    have "\<forall>t. fetch_loop get (cid # ids) sr t =
        (r, t\<lparr>requests := requests t @ map search_url (take (Suc k) (cid # ids))\<rparr>)"
      using Inr by (simp add: eq)
    with k show ?thesis by (intro exI [of _ r] exI [of _ "Suc k"]) simp
  qed
qed

lemma fetch_loop_ok:
  "\<forall>cid \<in> set ids. \<not> isl (fetch_category get cid) \<Longrightarrow>
   fetch_loop get ids sr t =
     (Inr (sr @ map (\<lambda>cid. projr (fetch_category get cid)) ids),
      t\<lparr>requests := requests t @ map search_url ids\<rparr>)"
proof (induction ids arbitrary: sr t)
  case Nil
  show ?case by simp
next
  case (Cons cid ids)
  then obtain b where b: "fetch_category get cid = Inr b"
    by (cases "fetch_category get cid") auto
  with Cons show ?case by simp
qed

lemma fetch_loop_fail:
  "cid \<in> set ids \<Longrightarrow> isl (fetch_category get cid) \<Longrightarrow>
   \<exists>e. fst (fetch_loop get ids sr t) = Inl e"
proof (induction ids arbitrary: sr t)
  case Nil
  then show ?case by simp
next
  case (Cons a ids)
  show ?case
  proof (cases "fetch_category get a")
    case (Inl e)
    then show ?thesis by simp
  next
    case (Inr b)
    with Cons.prems have "cid \<in> set ids" by auto
    from Cons.IH [OF this Cons.prems(2)] Inr show ?thesis by simp
  qed
qed

lemma fetch_loop_error:
  "fst (fetch_loop get ids sr t) = Inl e \<Longrightarrow> e \<noteq> IndexError"
proof (induction ids arbitrary: sr t)
  case Nil
  then show ?case by simp
next
  case (Cons a ids)
  show ?case
  proof (cases "fetch_category get a")
    case (Inl e')
    with Cons.prems have "e = e'" by simp
    with Inl show ?thesis by (auto dest: fetch_category_error)
  next
    case (Inr b)
    with Cons.prems have "fst (fetch_loop get ids (sr @ [b])
        (t\<lparr>requests := requests t @ [search_url a]\<rparr>)) = Inl e" by simp
    then show ?thesis by (rule Cons.IH)
  qed
qed

lemma fetch_loop_Inr:
  assumes "fst (fetch_loop get ids sr t) = Inr sr'"
  shows "\<forall>cid \<in> set ids. \<not> isl (fetch_category get cid)"
proof
  fix cid assume "cid \<in> set ids"
  show "\<not> isl (fetch_category get cid)"
  proof
    assume "isl (fetch_category get cid)"
    from fetch_loop_fail [OF \<open>cid \<in> set ids\<close> this, of sr t] assms show False by auto
  qed
qed

lemma build_loop_ok:
  "\<forall>c \<in> set cats. \<not> isl (build_carousel sr c) \<Longrightarrow>
   build_loop sr cats cars = Inr (cars @ map (\<lambda>c. projr (build_carousel sr c)) cats)"
proof (induction cats arbitrary: cars)
  case Nil
  show ?case by simp
next
  case (Cons c cats)
  then obtain car where "build_carousel sr c = Inr car"
    by (cases "build_carousel sr c") auto
  with Cons show ?case by simp
qed

lemma join_loop_ok:
  "\<forall>c \<in> set cars. \<not> isl (join_questions cats c) \<Longrightarrow>
   join_loop cats cars = Inr (map (\<lambda>c. projr (join_questions cats c)) cars)"
proof (induction cars)
  case Nil
  show ?case by simp
next
  case (Cons c cars)
  then obtain j where "join_questions cats c = Inr j"
    by (cases "join_questions cats c") auto
  with Cons show ?case by simp
qed

lemma build_carousel_ok:
  "category_id c \<in> batch_category_id ` set sr \<Longrightarrow> \<not> isl (build_carousel sr c)"
  by (auto simp: build_carousel_def index_def filter_empty_conv split: sum.splits if_splits)

lemma join_questions_ok:
  "category_raw c \<in> name ` set cats \<Longrightarrow> \<not> isl (join_questions cats c)"
  by (auto simp: join_questions_def index_def filter_empty_conv split: sum.splits if_splits)

section \<open>The pipeline, stage by stage\<close>

lemma chat_unfold:
  "chat vs get plan =
     (case fetch_loop get (remdups (map category_id (resolved vs plan))) []
             (start\<lparr>warnings := filter (\<lambda>n. isl (match_category vs n)) (map name (categories plan)),
        logging_errors := map (\<lambda>n. (''Category not matched for:'', [n]))
          (filter (\<lambda>n. isl (match_category vs n)) (map name (categories plan)))\<rparr>) of
        (Inl e, t') \<Rightarrow> (Inl e, t')
      | (Inr sr, t') \<Rightarrow>
          (case build_loop sr (resolved vs plan) [] of
             Inl e \<Rightarrow> (Inl e, t')
           | Inr cars \<Rightarrow>
               (case join_loop (categories plan) cars of
                  Inl e \<Rightarrow> (Inl e, t')
                | Inr js \<Rightarrow> (Inr \<lparr>response_message = message plan, carousels = js\<rparr>, t'))))"
proof -
  have "match_loop vs (map name (categories plan)) [] start =
      (Inr (resolved vs plan),
       start\<lparr>warnings := filter (\<lambda>n. isl (match_category vs n)) (map name (categories plan)),
        logging_errors := map (\<lambda>n. (''Category not matched for:'', [n]))
          (filter (\<lambda>n. isl (match_category vs n)) (map name (categories plan)))\<rparr>)"
    by (simp add: match_loop_eq resolved_eq start_def)
  then show ?thesis by (simp add: chat_def)
qed

lemma resolved_raw:
  "c \<in> set (resolved vs plan) \<Longrightarrow> category_raw c \<in> name ` set (categories plan)"
  by (auto simp: resolved_iff dest: match_category_raw)

lemma build_carousel_fields:
  "build_carousel sr c = Inr car \<Longrightarrow>
     category_raw car = category_raw c \<and> category_id car = category_id c \<and>
     category_name car = category_name c \<and> domain_id car = domain_id c \<and>
     similarity_score car = similarity_score c"
  by (auto simp: build_carousel_def split: sum.splits)

lemma join_questions_fields:
  "join_questions cats c = Inr j \<Longrightarrow>
     category_raw j = category_raw c \<and> category_id j = category_id c \<and>
     category_name j = category_name c \<and> domain_id j = domain_id c \<and>
     similarity_score j = similarity_score c \<and> items j = items c"
  by (auto simp: join_questions_def split: sum.splits)

text \<open>A run in which every fetch succeeds, in closed form.\<close>

lemma chat_ok:
  assumes ok: "\<forall>c \<in> set (resolved vs plan). \<not> isl (fetch_category get (category_id c))"
  shows "chat vs get plan =
     (Inr \<lparr>response_message = message plan,
           carousels = map (\<lambda>c. projr (join_questions (categories plan)
               (projr (build_carousel
                  (map (\<lambda>cid. projr (fetch_category get cid))
                     (remdups (map category_id (resolved vs plan)))) c))))
             (resolved vs plan)\<rparr>,
      \<lparr>warnings = filter (\<lambda>n. isl (match_category vs n)) (map name (categories plan)),
       requests = map search_url (remdups (map category_id (resolved vs plan))),
       emitted = [], logging_errors = map (\<lambda>n. (''Category not matched for:'', [n]))
          (filter (\<lambda>n. isl (match_category vs n)) (map name (categories plan)))\<rparr>)"
proof -
  let ?ids = "remdups (map category_id (resolved vs plan))"
  let ?sr = "map (\<lambda>cid. projr (fetch_category get cid)) ?ids"
  have ids: "\<forall>cid \<in> set ?ids. \<not> isl (fetch_category get cid)"
    using ok by auto
  have bid: "batch_category_id (projr (fetch_category get cid)) = cid"
    if "cid \<in> set ?ids" for cid
  proof -
    from ids that obtain b where b: "fetch_category get cid = Inr b"
      by (cases "fetch_category get cid") auto
    with fetch_category_batch [OF b] show ?thesis by simp
  qed
  have b_ok: "\<forall>c \<in> set (resolved vs plan). \<not> isl (build_carousel ?sr c)"
  proof
    fix c assume c: "c \<in> set (resolved vs plan)"
    then have "category_id c \<in> set ?ids" by simp
    then have "category_id c \<in> batch_category_id ` set ?sr"
      using bid by (force simp: image_iff)
    then show "\<not> isl (build_carousel ?sr c)" by (rule build_carousel_ok)
  qed
  have j_ok: "\<forall>car \<in> set (map (\<lambda>c. projr (build_carousel ?sr c)) (resolved vs plan)).
      \<not> isl (join_questions (categories plan) car)"
  proof
    fix car assume "car \<in> set (map (\<lambda>c. projr (build_carousel ?sr c)) (resolved vs plan))"
    then obtain c where c: "c \<in> set (resolved vs plan)"
      and car: "car = projr (build_carousel ?sr c)" by auto
    from b_ok c obtain k where k: "build_carousel ?sr c = Inr k"
      by (cases "build_carousel ?sr c") auto
    with build_carousel_fields [OF k] car have "category_raw car = category_raw c" by simp
    with resolved_raw [OF c] show "\<not> isl (join_questions (categories plan) car)"
      by (simp add: join_questions_ok)
  qed
  show ?thesis
    by (simp add: chat_unfold fetch_loop_ok [OF ids] build_loop_ok [OF b_ok]
        join_loop_ok [OF j_ok] start_def comp_def)
qed

lemma chat_fail:
  assumes "c \<in> set (resolved vs plan)" and "isl (fetch_category get (category_id c))"
  shows "\<exists>e. fst (chat vs get plan) = Inl e \<and> e \<noteq> IndexError"
proof -
  let ?t = "start\<lparr>warnings := filter (\<lambda>n. isl (match_category vs n)) (map name (categories plan)),
        logging_errors := map (\<lambda>n. (''Category not matched for:'', [n]))
          (filter (\<lambda>n. isl (match_category vs n)) (map name (categories plan)))\<rparr>"
  let ?ids = "remdups (map category_id (resolved vs plan))"
  from assms(1) have "category_id c \<in> set ?ids" by simp
  from fetch_loop_fail [OF this assms(2), of "[]" ?t]
  obtain e where e: "fst (fetch_loop get ?ids [] ?t) = Inl e" by blast
  then have "e \<noteq> IndexError" by (rule fetch_loop_error)
  moreover from e have "fst (chat vs get plan) = Inl e"
    by (cases "fetch_loop get ?ids [] ?t") (simp add: chat_unfold)
  ultimately show ?thesis by blast
qed

lemma chat_Inr_ok:
  assumes "fst (chat vs get plan) = Inr resp"
  shows "\<forall>c \<in> set (resolved vs plan). \<not> isl (fetch_category get (category_id c))"
  using assms chat_fail [of _ vs plan get] by fastforce

lemma index_filter_find:
  "index (filter P xs) 0 = (case find P xs of None \<Rightarrow> Inl IndexError | Some b \<Rightarrow> Inr b)"
  by (induction xs) (auto simp: index_def)

lemma find_SomeD: "find P xs = Some b \<Longrightarrow> b \<in> set xs \<and> P b"
  by (induction xs) (auto split: if_splits)

lemma build_carousel_Inr:
  "build_carousel sr c = Inr k \<Longrightarrow>
     \<exists>b. find (\<lambda>x. batch_category_id x = category_id c) sr = Some b \<and>
         k = \<lparr>category_raw = category_raw c, category_id = category_id c,
              category_name = category_name c, domain_id = domain_id c,
              similarity_score = similarity_score c,
              items = take ITEMS_BY_CAROUSEL
                (filter (\<lambda>x. listing_domain_id x = domain_id c) (results b))\<rparr>"
  by (auto simp: build_carousel_def index_filter_find split: option.splits)

lemma join_questions_Inr:
  "join_questions cats k = Inr j \<Longrightarrow>
     \<exists>p. find (\<lambda>x. name x = category_raw k) cats = Some p \<and>
         j = \<lparr>category_raw = category_raw k, category_id = category_id k,
              category_name = category_name k, domain_id = domain_id k,
              similarity_score = similarity_score k, items = items k,
              carousel_questions = questions p\<rparr>"
  by (auto simp: join_questions_def index_filter_find split: option.splits)

text \<open>
  A run that returns: the batches are those of the distinct category ids, in order, and
  the carousels are those of the resolved categories, in order, each from the first batch
  with its category id and the first proposal with its name.
\<close>

lemma chat_returns:
  assumes "fst (chat vs get plan) = Inr resp"
  shows "\<exists>sr. fetched vs get plan = Inr sr \<and>
     map batch_category_id sr = remdups (map category_id (resolved vs plan)) \<and>
     (\<forall>b \<in> set sr. fetch_category get (batch_category_id b) = Inr b) \<and>
     response_message resp = message plan \<and>
     list_all2 (\<lambda>c j. \<exists>b p.
         find (\<lambda>x. batch_category_id x = category_id c) sr = Some b \<and>
         find (\<lambda>x. name x = category_raw c) (categories plan) = Some p \<and>
         j = \<lparr>category_raw = category_raw c, category_id = category_id c,
              category_name = category_name c, domain_id = domain_id c,
              similarity_score = similarity_score c,
              items = take ITEMS_BY_CAROUSEL
                (filter (\<lambda>x. listing_domain_id x = domain_id c) (results b)),
              carousel_questions = questions p\<rparr>)
       (resolved vs plan) (carousels resp)"
proof -
  let ?ids = "remdups (map category_id (resolved vs plan))"
  let ?sr = "map (\<lambda>cid. projr (fetch_category get cid)) ?ids"
  let ?F = "\<lambda>c. projr (join_questions (categories plan) (projr (build_carousel ?sr c)))"
  from assms have ok: "\<forall>c \<in> set (resolved vs plan). \<not> isl (fetch_category get (category_id c))"
    by (rule chat_Inr_ok)
  then have ids: "\<forall>cid \<in> set ?ids. \<not> isl (fetch_category get cid)" by auto
  have fetched: "fetched vs get plan = Inr ?sr"
    by (simp add: fetched_def fetch_loop_ok [OF ids])
  have each: "fetch_category get cid = Inr (projr (fetch_category get cid))"
    if "cid \<in> set ?ids" for cid
    using ids that by (cases "fetch_category get cid") auto
  have bid: "batch_category_id (projr (fetch_category get cid)) = cid"
    if "cid \<in> set ?ids" for cid
    using fetch_category_batch [OF each [OF that]] by simp
  have m: "map batch_category_id ?sr = ?ids"
    unfolding map_map comp_def by (rule map_idI) (rule bid)
  have self: "\<forall>b \<in> set ?sr. fetch_category get (batch_category_id b) = Inr b"
    using each bid by auto
  from chat_ok [OF ok] assms have resp: "resp = \<lparr>response_message = message plan,
      carousels = map ?F (resolved vs plan)\<rparr>" by simp
  have "list_all2 (\<lambda>c j. \<exists>b p.
         find (\<lambda>x. batch_category_id x = category_id c) ?sr = Some b \<and>
         find (\<lambda>x. name x = category_raw c) (categories plan) = Some p \<and>
         j = \<lparr>category_raw = category_raw c, category_id = category_id c,
              category_name = category_name c, domain_id = domain_id c,
              similarity_score = similarity_score c,
              items = take ITEMS_BY_CAROUSEL
                (filter (\<lambda>x. listing_domain_id x = domain_id c) (results b)),
              carousel_questions = questions p\<rparr>)
       (resolved vs plan) (map ?F (resolved vs plan))"
    unfolding list_all2_map2
  proof (rule list_all2_same [THEN iffD2], rule ballI)
    fix c assume c: "c \<in> set (resolved vs plan)"
    then have "category_id c \<in> batch_category_id ` set ?sr"
      using m by (metis list.set_map set_map set_remdups image_eqI)
    then have "\<not> isl (build_carousel ?sr c)" by (rule build_carousel_ok)
    then obtain k where k: "build_carousel ?sr c = Inr k"
      by (cases "build_carousel ?sr c") auto
    from build_carousel_Inr [OF k] obtain b
      where b: "find (\<lambda>x. batch_category_id x = category_id c) ?sr = Some b"
        and keq: "k = \<lparr>category_raw = category_raw c, category_id = category_id c,
              category_name = category_name c, domain_id = domain_id c,
              similarity_score = similarity_score c,
              items = take ITEMS_BY_CAROUSEL
                (filter (\<lambda>x. listing_domain_id x = domain_id c) (results b))\<rparr>"
      by blast
    from keq have raw: "category_raw k = category_raw c" by simp
    with resolved_raw [OF c] have "\<not> isl (join_questions (categories plan) k)"
      by (simp add: join_questions_ok)
    then obtain j where j: "join_questions (categories plan) k = Inr j"
      by (cases "join_questions (categories plan) k") auto
    from join_questions_Inr [OF j] obtain p
      where p: "find (\<lambda>x. name x = category_raw k) (categories plan) = Some p"
        and jeq: "j = \<lparr>category_raw = category_raw k, category_id = category_id k,
              category_name = category_name k, domain_id = domain_id k,
              similarity_score = similarity_score k, items = items k,
              carousel_questions = questions p\<rparr>"
      by blast
    have "?F c = j" using k j by simp
    with b p jeq keq show "\<exists>b p.
         find (\<lambda>x. batch_category_id x = category_id c) ?sr = Some b \<and>
         find (\<lambda>x. name x = category_raw c) (categories plan) = Some p \<and>
         ?F c = \<lparr>category_raw = category_raw c, category_id = category_id c,
              category_name = category_name c, domain_id = domain_id c,
              similarity_score = similarity_score c,
              items = take ITEMS_BY_CAROUSEL
                (filter (\<lambda>x. listing_domain_id x = domain_id c) (results b)),
              carousel_questions = questions p\<rparr>"
      by simp
  qed
  with fetched m self resp show ?thesis by simp
qed



lemma resolved_length: "length (resolved vs plan) \<le> length (categories plan)"
  using length_filter_le [of "\<lambda>r. \<not> isl r" "map (match_category vs) (map name (categories plan))"]
  by (simp add: resolved_eq)

lemma chat_trace:
  "\<exists>k \<le> length (remdups (map category_id (resolved vs plan))).
     snd (chat vs get plan) =
       \<lparr>warnings = filter (\<lambda>n. isl (match_category vs n)) (map name (categories plan)),
        requests = map search_url (take k (remdups (map category_id (resolved vs plan)))),
        emitted = [], logging_errors = map (\<lambda>n. (''Category not matched for:'', [n]))
          (filter (\<lambda>n. isl (match_category vs n)) (map name (categories plan)))\<rparr>"
proof -
  let ?ids = "remdups (map category_id (resolved vs plan))"
  let ?t = "start\<lparr>warnings := filter (\<lambda>n. isl (match_category vs n)) (map name (categories plan)),
        logging_errors := map (\<lambda>n. (''Category not matched for:'', [n]))
          (filter (\<lambda>n. isl (match_category vs n)) (map name (categories plan)))\<rparr>"
  from fetch_loop_shape [of ?ids get "[]"] obtain r k where k: "k \<le> length ?ids"
    and eq: "fetch_loop get ?ids [] ?t = (r, ?t\<lparr>requests := requests ?t @ map search_url (take k ?ids)\<rparr>)"
    by blast
  have "snd (chat vs get plan) = ?t\<lparr>requests := requests ?t @ map search_url (take k ?ids)\<rparr>"
    unfolding chat_unfold eq by (simp split: sum.splits)
  then have "snd (chat vs get plan) =
       \<lparr>warnings = filter (\<lambda>n. isl (match_category vs n)) (map name (categories plan)),
        requests = map search_url (take k ?ids),
        emitted = [], logging_errors = map (\<lambda>n. (''Category not matched for:'', [n]))
          (filter (\<lambda>n. isl (match_category vs n)) (map name (categories plan)))\<rparr>"
    by (simp add: start_def)
  with k show ?thesis by blast
qed

section \<open>One carousel per resolved category\<close>

text \<open>
  C1, as amended. When no listing fetch of a resolved category fails, the run returns a
  response with exactly one carousel per resolved category, in the order of the resolved
  categories: proposals that resolve to the same category id each get their own carousel,
  and there are at most as many resolved categories as proposals. (A failing fetch gives
  no response at all, not a shorter list.)
\<close>

theorem carousel_per_resolved:
  assumes "\<forall>c \<in> set (resolved vs plan). \<not> isl (fetch_category get (category_id c))"
  shows "\<exists>resp. fst (chat vs get plan) = Inr resp \<and>
     length (carousels resp) = length (resolved vs plan) \<and>
     map category_raw (carousels resp) = map category_raw (resolved vs plan) \<and>
     map category_id (carousels resp) = map category_id (resolved vs plan) \<and>
     length (resolved vs plan) \<le> length (categories plan)"
proof -
  from chat_ok [OF assms] obtain resp where resp: "fst (chat vs get plan) = Inr resp"
    by simp
  from chat_returns [OF resp] have all2: "list_all2 (\<lambda>c j.
      category_raw j = category_raw c \<and> category_id j = category_id c)
      (resolved vs plan) (carousels resp)"
    by (auto elim!: list_all2_mono)
  have len: "length (carousels resp) = length (resolved vs plan)"
    using all2 by (simp add: list_all2_lengthD)
  have raw: "map category_raw (carousels resp) = map category_raw (resolved vs plan)"
    using all2 by (auto simp: list_all2_conv_all_nth intro!: nth_equalityI)
  have cid: "map category_id (carousels resp) = map category_id (resolved vs plan)"
    using all2 by (auto simp: list_all2_conv_all_nth intro!: nth_equalityI)
  from resp len raw cid resolved_length [of vs plan] show ?thesis by blast
qed

theorem carousel_per_resolved_witness:
  "map category_id (resolved vs_ex (plan_ex [''Licuadoras'', ''Ollas'', ''Batidoras'']))
     = [''MLA1'', ''MLA1''] \<and>
   \<not> isl (fetch_category get_ex ''MLA1'') \<and>
   (\<exists>resp. fst (chat vs_ex get_ex (plan_ex [''Licuadoras'', ''Ollas'', ''Batidoras''])) = Inr resp \<and>
      length (carousels resp) = 2 \<and>
      map category_raw (carousels resp) = [''Licuadoras'', ''Batidoras''])"
proof -
  let ?plan = "plan_ex [''Licuadoras'', ''Ollas'', ''Batidoras'']"
  have r: "map category_raw (resolved vs_ex ?plan) = [''Licuadoras'', ''Batidoras'']"
    by code_simp
  have i: "map category_id (resolved vs_ex ?plan) = [''MLA1'', ''MLA1'']"
    by code_simp
  have f: "\<not> isl (fetch_category get_ex ''MLA1'')"
    by code_simp
  have h: "\<forall>c \<in> set (resolved vs_ex ?plan). \<not> isl (fetch_category get_ex (category_id c))"
  proof
    fix c assume "c \<in> set (resolved vs_ex ?plan)"
    then have "category_id c \<in> set (map category_id (resolved vs_ex ?plan))" by simp
    with i f show "\<not> isl (fetch_category get_ex (category_id c))" by simp
  qed
  have l: "length (resolved vs_ex ?plan) = 2"
    using arg_cong [OF i, of length] by simp
  show ?thesis
    using carousel_per_resolved [OF h] r i f l by auto
qed

theorem carousel_count_counterexample:
  "map category_id (resolved vs_ex (plan_ex [''Licuadoras'', ''Sartenes'', ''Ollas'']))
     = [''MLA1'', ''MLA2''] \<and>
   \<not> isl (fetch_category get_ex ''MLA1'') \<and>
   isl (fetch_category get_ex ''MLA2'') \<and>
   fst (chat vs_ex get_ex (plan_ex [''Licuadoras'', ''Sartenes'', ''Ollas''])) = Inl JSONDecodeError"
  by code_simp

section \<open>A failing fetch\<close>

lemma to_listing_isl: "isl (to_listing r) \<longleftrightarrow> r ''id'' = None"
  by (simp add: to_listing_def split: option.splits)

lemma to_listings_eq:
  "to_listings raws =
     (if \<exists>r \<in> set raws. r ''id'' = None then Inl (KeyError ''id'')
      else Inr (map (\<lambda>r. projr (to_listing r)) raws))"
proof (induction raws)
  case Nil
  show ?case by simp
next
  case (Cons r raws)
  show ?case
  proof (cases "r ''id''")
    case None
    then show ?thesis by (simp add: to_listing_def)
  next
    case (Some i)
    then obtain l where l: "to_listing r = Inr l" by (simp add: to_listing_def)
    with Some Cons.IH show ?thesis by simp
  qed
qed

lemma fetch_category_eq:
  "fetch_category get cid =
     (case get (search_url cid) of
        ConnectionFailed \<Rightarrow> Inl RequestException
      | MalformedBody \<Rightarrow> Inl JSONDecodeError
      | NoResults \<Rightarrow> Inl (KeyError ''results'')
      | Results raws \<Rightarrow>
          (if \<exists>r \<in> set raws. r ''id'' = None then Inl (KeyError ''id'')
           else Inr \<lparr>batch_category_id = cid,
                     results = map (\<lambda>r. projr (to_listing r)) raws\<rparr>))"
  by (auto simp: fetch_category_def to_listings_eq split: reply.splits)







section \<open>Items and questions of a carousel\<close>

lemma list_all2_in_set2:
  "list_all2 P xs ys \<Longrightarrow> y \<in> set ys \<Longrightarrow> \<exists>x \<in> set xs. P x y"
proof -
  assume all2: "list_all2 P xs ys" and "y \<in> set ys"
  then obtain i where i: "i < length ys" and y: "ys ! i = y"
    by (auto simp: in_set_conv_nth)
  from all2 i have "P (xs ! i) (ys ! i)" by (rule list_all2_nthD2)
  moreover from all2 i have "xs ! i \<in> set xs" by (simp add: list_all2_lengthD)
  ultimately show ?thesis using y by blast
qed

lemma subseq_take_filter: "subseq (take n (filter P xs)) xs"
proof -
  have "prefix (take n (filter P xs)) (filter P xs)" by (rule take_is_prefix)
  then have "subseq (take n (filter P xs)) (filter P xs)" by (rule prefix_imp_subseq)
  also have "subseq (filter P xs) xs" by simp
  finally show ?thesis .
qed

text \<open>
  C2. The items of every carousel of the response are taken from the one batch with the
  carousel's category id, the mapped results of the search for that id: those with the
  carousel's domain id, in the order of the batch, and at most \<^verbatim>\<open>ITEMS_BY_CAROUSEL\<close> (5)
  of them; so every item has the carousel's domain id.
\<close>

theorem carousel_items:
  assumes "fst (chat vs get plan) = Inr resp" and "j \<in> set (carousels resp)"
  shows "\<exists>sr b raws. fetched vs get plan = Inr sr \<and> b \<in> set sr \<and>
     batch_category_id b = category_id j \<and>
     (\<forall>b' \<in> set sr. batch_category_id b' = category_id j \<longrightarrow> b' = b) \<and>
     get (search_url (category_id j)) = Results raws \<and> to_listings raws = Inr (results b) \<and>
     items j = take ITEMS_BY_CAROUSEL
       (filter (\<lambda>x. listing_domain_id x = domain_id j) (results b)) \<and>
     subseq (items j) (results b) \<and>
     length (items j) \<le> 5 \<and>
     (\<forall>x \<in> set (items j). listing_domain_id x = domain_id j)"
proof -
  from chat_returns [OF assms(1)] obtain sr where sr: "fetched vs get plan = Inr sr"
    and ids: "map batch_category_id sr = remdups (map category_id (resolved vs plan))"
    and self: "\<forall>b \<in> set sr. fetch_category get (batch_category_id b) = Inr b"
    and all2: "list_all2 (\<lambda>c j. \<exists>b p.
         find (\<lambda>x. batch_category_id x = category_id c) sr = Some b \<and>
         find (\<lambda>x. name x = category_raw c) (categories plan) = Some p \<and>
         j = \<lparr>category_raw = category_raw c, category_id = category_id c,
              category_name = category_name c, domain_id = domain_id c,
              similarity_score = similarity_score c,
              items = take ITEMS_BY_CAROUSEL
                (filter (\<lambda>x. listing_domain_id x = domain_id c) (results b)),
              carousel_questions = questions p\<rparr>)
       (resolved vs plan) (carousels resp)"
    by blast
  from list_all2_in_set2 [OF all2 assms(2)] obtain c b p
    where c: "c \<in> set (resolved vs plan)"
      and b: "find (\<lambda>x. batch_category_id x = category_id c) sr = Some b"
      and p: "find (\<lambda>x. name x = category_raw c) (categories plan) = Some p"
      and j: "j = \<lparr>category_raw = category_raw c, category_id = category_id c,
              category_name = category_name c, domain_id = domain_id c,
              similarity_score = similarity_score c,
              items = take ITEMS_BY_CAROUSEL
                (filter (\<lambda>x. listing_domain_id x = domain_id c) (results b)),
              carousel_questions = questions p\<rparr>"
    by blast
  from j have cid: "category_id j = category_id c" and did: "domain_id j = domain_id c"
    and its: "items j = take ITEMS_BY_CAROUSEL
                (filter (\<lambda>x. listing_domain_id x = domain_id c) (results b))"
    by simp_all
  from find_SomeD [OF b] have bin: "b \<in> set sr" and bid: "batch_category_id b = category_id j"
    using cid by auto
  have "distinct (map batch_category_id sr)" unfolding ids by simp
  then have inj: "inj_on batch_category_id (set sr)" by (simp add: distinct_map)
  have uniq: "\<forall>b' \<in> set sr. batch_category_id b' = category_id j \<longrightarrow> b' = b"
    using inj bin bid by (metis inj_onD)
  from self bin have "fetch_category get (batch_category_id b) = Inr b" by blast
  from fetch_category_batch [OF this] bid obtain raws
    where raws: "get (search_url (category_id j)) = Results raws"
      and tl: "to_listings raws = Inr (results b)"
    by auto
  have its': "items j = take ITEMS_BY_CAROUSEL
       (filter (\<lambda>x. listing_domain_id x = domain_id j) (results b))"
    using its did by simp
  have sub: "subseq (items j) (results b)" unfolding its' by (rule subseq_take_filter)
  have len: "length (items j) \<le> 5" unfolding its' by (simp add: ITEMS_BY_CAROUSEL_def)
  have dom: "\<forall>x \<in> set (items j). listing_domain_id x = domain_id j"
    unfolding its' by (auto dest: in_set_takeD)
  from sr bin bid uniq raws tl its' sub len dom show ?thesis by blast
qed

theorem carousel_items_witness:
  "fst (chat vs_ex get_ex (plan_ex [''Licuadoras'', ''Ollas'', ''Batidoras''])) =
     Inr (projr (fst (chat vs_ex get_ex (plan_ex [''Licuadoras'', ''Ollas'', ''Batidoras''])))) \<and>
   map item_id (items (hd (carousels
     (projr (fst (chat vs_ex get_ex (plan_ex [''Licuadoras'', ''Ollas'', ''Batidoras''])))))))
     = [''I1'', ''I3''] \<and>
   length (items (hd (carousels
     (projr (fst (chat vs_ex get_ex (plan_ex [''Licuadoras'', ''Ollas'', ''Batidoras''])))))))
     \<le> 5"
proof -
  let ?resp = "projr (fst (chat vs_ex get_ex (plan_ex [''Licuadoras'', ''Ollas'', ''Batidoras''])))"
  have h1: "fst (chat vs_ex get_ex (plan_ex [''Licuadoras'', ''Ollas'', ''Batidoras''])) = Inr ?resp"
    by code_simp
  have ne: "carousels ?resp \<noteq> []" by code_simp
  then have h2: "hd (carousels ?resp) \<in> set (carousels ?resp)" by simp
  have v: "map item_id (items (hd (carousels ?resp))) = [''I1'', ''I3'']" by code_simp
  show ?thesis
    using carousel_items [OF h1 h2] h1 v by auto
qed

text \<open>
  C3. The questions of every carousel of the response are the questions of a proposal of
  the plan whose name is the carousel's \<^verbatim>\<open>category_raw\<close>: the first such proposal, which
  is the only one when the names of the plan are distinct.
\<close>

theorem carousel_questions_of_plan:
  assumes "fst (chat vs get plan) = Inr resp" and "j \<in> set (carousels resp)"
  shows "(\<exists>p. find (\<lambda>x. name x = category_raw j) (categories plan) = Some p \<and>
       p \<in> set (categories plan) \<and> name p = category_raw j \<and>
       carousel_questions j = questions p) \<and>
     (distinct (map name (categories plan)) \<longrightarrow>
       (\<forall>p \<in> set (categories plan). name p = category_raw j \<longrightarrow>
          carousel_questions j = questions p))"
proof -
  from chat_returns [OF assms(1)] obtain sr :: "search_result list"
    where all2: "list_all2 (\<lambda>c j. \<exists>b p.
         find (\<lambda>x. batch_category_id x = category_id c) sr = Some b \<and>
         find (\<lambda>x. name x = category_raw c) (categories plan) = Some p \<and>
         j = \<lparr>category_raw = category_raw c, category_id = category_id c,
              category_name = category_name c, domain_id = domain_id c,
              similarity_score = similarity_score c,
              items = take ITEMS_BY_CAROUSEL
                (filter (\<lambda>x. listing_domain_id x = domain_id c) (results b)),
              carousel_questions = questions p\<rparr>)
       (resolved vs plan) (carousels resp)"
    by blast
  from list_all2_in_set2 [OF all2 assms(2)] obtain c b p
    where c: "c \<in> set (resolved vs plan)"
      and b: "find (\<lambda>x. batch_category_id x = category_id c) sr = Some b"
      and p: "find (\<lambda>x. name x = category_raw c) (categories plan) = Some p"
      and j: "j = \<lparr>category_raw = category_raw c, category_id = category_id c,
              category_name = category_name c, domain_id = domain_id c,
              similarity_score = similarity_score c,
              items = take ITEMS_BY_CAROUSEL
                (filter (\<lambda>x. listing_domain_id x = domain_id c) (results b)),
              carousel_questions = questions p\<rparr>"
    by blast
  from j have raw: "category_raw j = category_raw c"
    and q: "carousel_questions j = questions p"
    by simp_all
  from p raw have f: "find (\<lambda>x. name x = category_raw j) (categories plan) = Some p" by simp
  from find_SomeD [OF f] have pin: "p \<in> set (categories plan)" and pn: "name p = category_raw j"
    by auto
  have "carousel_questions j = questions p'"
    if d: "distinct (map name (categories plan))" and p': "p' \<in> set (categories plan)"
      and n: "name p' = category_raw j" for p'
  proof -
    from d have "inj_on name (set (categories plan))" by (simp add: distinct_map)
    with pin p' pn n have "p' = p" by (metis inj_onD)
    with q show ?thesis by simp
  qed
  with f pin pn q show ?thesis by blast
qed

theorem carousel_questions_of_plan_witness:
  "fst (chat vs_ex get_ex (plan_ex [''Licuadoras'', ''Ollas'', ''Batidoras''])) =
     Inr (projr (fst (chat vs_ex get_ex (plan_ex [''Licuadoras'', ''Ollas'', ''Batidoras''])))) \<and>
   category_raw (last (carousels
     (projr (fst (chat vs_ex get_ex (plan_ex [''Licuadoras'', ''Ollas'', ''Batidoras''])))))) =
     ''Batidoras'' \<and>
   carousel_questions (last (carousels
     (projr (fst (chat vs_ex get_ex (plan_ex [''Licuadoras'', ''Ollas'', ''Batidoras''])))))) =
     questions (proposal ''Batidoras'')"
proof -
  let ?plan = "plan_ex [''Licuadoras'', ''Ollas'', ''Batidoras'']"
  let ?resp = "projr (fst (chat vs_ex get_ex ?plan))"
  have h1: "fst (chat vs_ex get_ex ?plan) = Inr ?resp" by code_simp
  have ne: "carousels ?resp \<noteq> []" by code_simp
  then have h2: "last (carousels ?resp) \<in> set (carousels ?resp)" by simp
  have raw: "category_raw (last (carousels ?resp)) = ''Batidoras''" by code_simp
  have d: "distinct (map name (categories ?plan))" by code_simp
  have pin: "proposal ''Batidoras'' \<in> set (categories ?plan)" by (simp add: plan_ex_def)
  have pn: "name (proposal ''Batidoras'') = ''Batidoras''" by (simp add: proposal_def)
  from carousel_questions_of_plan [OF h1 h2] d pin pn raw
  have "carousel_questions (last (carousels ?resp)) = questions (proposal ''Batidoras'')"
    by auto
  with h1 raw show ?thesis by simp
qed

section \<open>Requests and batches\<close>







section \<open>The lookups of steps 5 and 6\<close>

text \<open>
  C7. The two first-element lookups of steps 5 and 6 never fail: the run never ends in an
  \<^verbatim>\<open>IndexError\<close>, and once the fetches have succeeded, every resolved category has a
  batch with its category id and the carousel built from it has a proposal of the plan
  with its \<^verbatim>\<open>category_raw\<close> as name.
\<close>

theorem lookups_never_fail:
  "fst (chat vs get plan) \<noteq> Inl IndexError \<and>
   (\<forall>sr. fetched vs get plan = Inr sr \<longrightarrow>
      (\<forall>c \<in> set (resolved vs plan).
         filter (\<lambda>x. batch_category_id x = category_id c) sr \<noteq> [] \<and>
         filter (\<lambda>x. name x = category_raw c) (categories plan) \<noteq> [] \<and>
         (\<exists>k j. build_carousel sr c = Inr k \<and> join_questions (categories plan) k = Inr j)))"
proof -
  have no_index: "fst (chat vs get plan) \<noteq> Inl IndexError"
  proof (cases "\<forall>c \<in> set (resolved vs plan). \<not> isl (fetch_category get (category_id c))")
    case True
    from chat_ok [OF True] show ?thesis by simp
  next
    case False
    then obtain c where "c \<in> set (resolved vs plan)"
      and "isl (fetch_category get (category_id c))" by blast
    from chat_fail [OF this] show ?thesis by auto
  qed
  have lookups: "filter (\<lambda>x. batch_category_id x = category_id c) sr \<noteq> [] \<and>
         filter (\<lambda>x. name x = category_raw c) (categories plan) \<noteq> [] \<and>
         (\<exists>k j. build_carousel sr c = Inr k \<and> join_questions (categories plan) k = Inr j)"
    if sr: "fetched vs get plan = Inr sr" and c: "c \<in> set (resolved vs plan)" for sr c
  proof -
    let ?ids = "remdups (map category_id (resolved vs plan))"
    from sr have "fst (fetch_loop get ?ids [] start) = Inr sr" by (simp add: fetched_def)
    then have ids: "\<forall>cid \<in> set ?ids. \<not> isl (fetch_category get cid)"
      by (rule fetch_loop_Inr)
    then have ok: "\<forall>c \<in> set (resolved vs plan). \<not> isl (fetch_category get (category_id c))"
      by simp
    from chat_ok [OF ok] have "fst (chat vs get plan) = Inr (projr (fst (chat vs get plan)))"
      by simp
    from chat_returns [OF this] sr have m: "map batch_category_id sr = ?ids" by auto
    from c have "category_id c \<in> set ?ids" by simp
    then have inb: "category_id c \<in> batch_category_id ` set sr"
      unfolding m [symmetric] by simp
    then have f1: "filter (\<lambda>x. batch_category_id x = category_id c) sr \<noteq> []"
      by (auto simp: filter_empty_conv)
    from resolved_raw [OF c] have inp: "category_raw c \<in> name ` set (categories plan)" .
    then have f2: "filter (\<lambda>x. name x = category_raw c) (categories plan) \<noteq> []"
      by (auto simp: filter_empty_conv)
    from build_carousel_ok [OF inb] obtain k where k: "build_carousel sr c = Inr k"
      by (cases "build_carousel sr c") auto
    from build_carousel_fields [OF k] inp have "category_raw k \<in> name ` set (categories plan)"
      by simp
    from join_questions_ok [OF this] obtain j where "join_questions (categories plan) k = Inr j"
      by (cases "join_questions (categories plan) k") auto
    with f1 f2 k show ?thesis by blast
  qed
  from no_index lookups show ?thesis by blast
qed

theorem lookups_never_fail_witness:
  "fetched vs_ex get_ex (plan_ex [''Licuadoras'', ''Ollas'', ''Batidoras'']) =
     Inr [projr (fetch_category get_ex ''MLA1'')] \<and>
   category_raw (last (resolved vs_ex (plan_ex [''Licuadoras'', ''Ollas'', ''Batidoras'']))) =
     ''Batidoras'' \<and>
   filter (\<lambda>x. batch_category_id x =
       category_id (last (resolved vs_ex (plan_ex [''Licuadoras'', ''Ollas'', ''Batidoras'']))))
     [projr (fetch_category get_ex ''MLA1'')] \<noteq> [] \<and>
   fst (chat vs_ex get_ex (plan_ex [''Licuadoras'', ''Ollas'', ''Batidoras''])) \<noteq> Inl IndexError"
proof -
  let ?plan = "plan_ex [''Licuadoras'', ''Ollas'', ''Batidoras'']"
  have sr: "fetched vs_ex get_ex ?plan = Inr [projr (fetch_category get_ex ''MLA1'')]"
    by code_simp
  have raw: "category_raw (last (resolved vs_ex ?plan)) = ''Batidoras''" by code_simp
  have "resolved vs_ex ?plan \<noteq> []" by code_simp
  then have m: "last (resolved vs_ex ?plan) \<in> set (resolved vs_ex ?plan)" by simp
  from lookups_never_fail [of vs_ex get_ex ?plan] sr m raw show ?thesis by blast
qed

section \<open>Listings\<close>

text \<open>
  C9. When the search of a category id returns raw results that all have an \<^verbatim>\<open>id\<close>, the
  fetch returns, without error, a batch with one listing for each raw result, in order:
  the item id of the listing is the raw id, and each of its five other fields is the raw
  value when the key is present and the empty string when it is absent.
\<close>

theorem listings_of_raw_results:
  assumes "get (search_url cid) = Results raws"
    and "\<forall>r \<in> set raws. r ''id'' \<noteq> None"
  shows "\<exists>ls. fetch_category get cid = Inr \<lparr>batch_category_id = cid, results = ls\<rparr> \<and>
     to_listings raws = Inr ls \<and> length ls = length raws \<and>
     (\<forall>k < length raws.
        to_listing (raws ! k) = Inr (ls ! k) \<and>
        item_id (ls ! k) = the ((raws ! k) ''id'') \<and>
        title (ls ! k) =
          (if ''title'' \<in> dom (raws ! k) then the ((raws ! k) ''title'') else '''') \<and>
        permalink (ls ! k) =
          (if ''permalink'' \<in> dom (raws ! k) then the ((raws ! k) ''permalink'') else '''') \<and>
        thumbnail (ls ! k) =
          (if ''thumbnail'' \<in> dom (raws ! k) then the ((raws ! k) ''thumbnail'') else '''') \<and>
        listing_category_id (ls ! k) =
          (if ''category_id'' \<in> dom (raws ! k) then the ((raws ! k) ''category_id'') else '''') \<and>
        listing_domain_id (ls ! k) =
          (if ''domain_id'' \<in> dom (raws ! k) then the ((raws ! k) ''domain_id'') else ''''))"
proof -
  let ?ls = "map (\<lambda>r. projr (to_listing r)) raws"
  from assms(2) have none: "\<not> (\<exists>r \<in> set raws. r ''id'' = None)" by blast
  then have tl: "to_listings raws = Inr ?ls" by (simp add: to_listings_eq)
  from none assms(1) have fc: "fetch_category get cid =
      Inr \<lparr>batch_category_id = cid, results = ?ls\<rparr>"
    by (simp add: fetch_category_eq)
  have each: "to_listing (raws ! k) = Inr (?ls ! k) \<and>
        item_id (?ls ! k) = the ((raws ! k) ''id'') \<and>
        title (?ls ! k) =
          (if ''title'' \<in> dom (raws ! k) then the ((raws ! k) ''title'') else '''') \<and>
        permalink (?ls ! k) =
          (if ''permalink'' \<in> dom (raws ! k) then the ((raws ! k) ''permalink'') else '''') \<and>
        thumbnail (?ls ! k) =
          (if ''thumbnail'' \<in> dom (raws ! k) then the ((raws ! k) ''thumbnail'') else '''') \<and>
        listing_category_id (?ls ! k) =
          (if ''category_id'' \<in> dom (raws ! k) then the ((raws ! k) ''category_id'') else '''') \<and>
        listing_domain_id (?ls ! k) =
          (if ''domain_id'' \<in> dom (raws ! k) then the ((raws ! k) ''domain_id'') else '''')"
    if k: "k < length raws" for k
  proof -
    from k assms(2) obtain i where i: "(raws ! k) ''id'' = Some i"
      by (metis nth_mem option.exhaust)
    from k have nth: "?ls ! k = projr (to_listing (raws ! k))" by simp
    from i show ?thesis unfolding nth
      by (auto simp: to_listing_def dom_def split: option.splits)
  qed
  from fc tl each show ?thesis
    by (intro exI [of _ ?ls]) simp
qed

theorem listings_of_raw_results_witness:
  "get_all (search_url ''MLA1'') = Results [raw_ex ''I1'' ''MLA-BLENDERS'', raw_ex ''I2'' ''MLA-PANS''] \<and>
   raw_ex ''I1'' ''MLA-BLENDERS'' ''id'' \<noteq> None \<and> raw_ex ''I2'' ''MLA-PANS'' ''id'' \<noteq> None \<and>
   fetch_category get_all ''MLA1'' =
     Inr \<lparr>batch_category_id = ''MLA1'',
          results =
            [\<lparr>item_id = ''I1'', title = ''T'', permalink = '''', thumbnail = '''',
              listing_category_id = '''', listing_domain_id = ''MLA-BLENDERS''\<rparr>,
             \<lparr>item_id = ''I2'', title = ''T'', permalink = '''', thumbnail = '''',
              listing_category_id = '''', listing_domain_id = ''MLA-PANS''\<rparr>]\<rparr>"
proof -
  let ?raws = "[raw_ex ''I1'' ''MLA-BLENDERS'', raw_ex ''I2'' ''MLA-PANS'']"
  have h1: "get_all (search_url ''MLA1'') = Results ?raws" by (simp add: get_all_def)
  have i1: "raw_ex ''I1'' ''MLA-BLENDERS'' ''id'' \<noteq> None"
    and i2: "raw_ex ''I2'' ''MLA-PANS'' ''id'' \<noteq> None"
    by (simp_all add: raw_ex_def)
  then have h2: "\<forall>r \<in> set ?raws. r ''id'' \<noteq> None" by simp
  from listings_of_raw_results [of get_all "''MLA1''" ?raws, OF h1 h2] obtain ls
    where fc: "fetch_category get_all ''MLA1'' = Inr \<lparr>batch_category_id = ''MLA1'', results = ls\<rparr>"
      and len: "length ls = length ?raws"
      and each: "\<forall>k < length ?raws.
        to_listing (?raws ! k) = Inr (ls ! k) \<and>
        item_id (ls ! k) = the ((?raws ! k) ''id'') \<and>
        title (ls ! k) =
          (if ''title'' \<in> dom (?raws ! k) then the ((?raws ! k) ''title'') else '''') \<and>
        permalink (ls ! k) =
          (if ''permalink'' \<in> dom (?raws ! k) then the ((?raws ! k) ''permalink'') else '''') \<and>
        thumbnail (ls ! k) =
          (if ''thumbnail'' \<in> dom (?raws ! k) then the ((?raws ! k) ''thumbnail'') else '''') \<and>
        listing_category_id (ls ! k) =
          (if ''category_id'' \<in> dom (?raws ! k) then the ((?raws ! k) ''category_id'') else '''') \<and>
        listing_domain_id (ls ! k) =
          (if ''domain_id'' \<in> dom (?raws ! k) then the ((?raws ! k) ''domain_id'') else '''')"
    by blast
  from len obtain a b where ls: "ls = [a, b]"
    by (cases ls; cases "tl ls") auto
  from each [rule_format, of 0] have "a =
      \<lparr>item_id = ''I1'', title = ''T'', permalink = '''', thumbnail = '''',
        listing_category_id = '''', listing_domain_id = ''MLA-BLENDERS''\<rparr>"
    unfolding ls by (cases a) (simp add: raw_ex_def)
  moreover from each [rule_format, of 1] have "b =
      \<lparr>item_id = ''I2'', title = ''T'', permalink = '''', thumbnail = '''',
        listing_category_id = '''', listing_domain_id = ''MLA-PANS''\<rparr>"
    unfolding ls by (cases b) (simp add: raw_ex_def)
  ultimately show ?thesis using fc ls h1 i1 i2 by simp
qed

section \<open>Matches and scores\<close>

lemma match_category_hit:
  "vs n = (doc, s) # rest \<Longrightarrow>
   match_category vs n =
     (if 8 \<le> length (str_split newline doc)
      then Inr \<lparr>category_raw = n,
                category_id = str_replace ''CATEGORY_ID_L3: '' '''' (str_split newline doc ! 4),
                category_name = str_replace ''CATEGORY_NAME_L3: '' '''' (str_split newline doc ! 5),
                domain_id = str_replace ''DOMAIN_ID: '' '''' (str_split newline doc ! 7),
                similarity_score = s\<rparr>
      else Inl IndexError)"
  by (simp add: match_category_def index_def Let_def)

lemma match_category_miss: "vs n = [] \<Longrightarrow> match_category vs n = Inl IndexError"
  by (simp add: match_category_def index_def)

text \<open>
  C8, as amended. No similarity threshold is enforced: when the nearest-neighbour query
  of a proposal returns a non-empty result whose first descriptor has at least eight
  lines, that match is accepted whatever its score, and a resolved category with the
  fields of the descriptor and that score is produced for the proposal.
\<close>

theorem match_accepted_any_score:
  assumes "vs n = (doc, s) # rest" and "8 \<le> length (str_split newline doc)"
  shows "match_category vs n =
       Inr \<lparr>category_raw = n,
            category_id = str_replace ''CATEGORY_ID_L3: '' '''' (str_split newline doc ! 4),
            category_name = str_replace ''CATEGORY_NAME_L3: '' '''' (str_split newline doc ! 5),
            domain_id = str_replace ''DOMAIN_ID: '' '''' (str_split newline doc ! 7),
            similarity_score = s\<rparr> \<and>
     (n \<in> set (map name (categories plan)) \<longrightarrow>
        (\<exists>c \<in> set (resolved vs plan). category_raw c = n \<and> similarity_score c = s))"
proof -
  let ?c = "\<lparr>category_raw = n,
            category_id = str_replace ''CATEGORY_ID_L3: '' '''' (str_split newline doc ! 4),
            category_name = str_replace ''CATEGORY_NAME_L3: '' '''' (str_split newline doc ! 5),
            domain_id = str_replace ''DOMAIN_ID: '' '''' (str_split newline doc ! 7),
            similarity_score = s\<rparr>"
  from match_category_hit [of vs n doc s rest, OF assms(1)] assms(2) have m: "match_category vs n = Inr ?c"
    by simp
  have "\<exists>c \<in> set (resolved vs plan). category_raw c = n \<and> similarity_score c = s"
    if "n \<in> set (map name (categories plan))"
  proof -
    from that m have "?c \<in> set (resolved vs plan)" unfolding resolved_iff by blast
    then show ?thesis by force
  qed
  with m show ?thesis by blast
qed

theorem match_accepted_any_score_witness:
  "vs_ex ''Sartenes'' = [(descriptor ''MLA2'' ''Sartenes'' ''MLA-PANS'', 1)] \<and>
   8 \<le> length (str_split newline (descriptor ''MLA2'' ''Sartenes'' ''MLA-PANS'')) \<and>
   match_category vs_ex ''Sartenes'' =
     Inr \<lparr>category_raw = ''Sartenes'', category_id = ''MLA2'', category_name = ''Sartenes'',
          domain_id = ''MLA-PANS'', similarity_score = 1\<rparr>"
proof -
  let ?doc = "descriptor ''MLA2'' ''Sartenes'' ''MLA-PANS''"
  have h1: "vs_ex ''Sartenes'' = (?doc, 1) # []" by (simp add: vs_ex_def)
  have sp: "str_split newline ?doc =
     [''CATEGORY_ID_L1: MLA1574'', ''CATEGORY_NAME_L1: Hogar'',
      ''CATEGORY_ID_L2: MLA1575'', ''CATEGORY_NAME_L2: Cocina'',
      ''CATEGORY_ID_L3: MLA2'', ''CATEGORY_NAME_L3: Sartenes'',
      ''DOMAIN_NAME: x'', ''DOMAIN_ID: MLA-PANS'']"
    by code_simp
  have h2: "8 \<le> length (str_split newline ?doc)" unfolding sp by simp
  have r1: "str_replace ''CATEGORY_ID_L3: '' '''' ''CATEGORY_ID_L3: MLA2'' = ''MLA2''"
    by code_simp
  have r2: "str_replace ''CATEGORY_NAME_L3: '' '''' ''CATEGORY_NAME_L3: Sartenes'' = ''Sartenes''"
    by code_simp
  have r3: "str_replace ''DOMAIN_ID: '' '''' ''DOMAIN_ID: MLA-PANS'' = ''MLA-PANS''"
    by code_simp
  from match_accepted_any_score [of vs_ex "''Sartenes''" ?doc 1 "[]" "plan_ex []", OF h1 h2]
  have "match_category vs_ex ''Sartenes'' =
     Inr \<lparr>category_raw = ''Sartenes'', category_id = ''MLA2'', category_name = ''Sartenes'',
          domain_id = ''MLA-PANS'', similarity_score = 1\<rparr>"
    unfolding sp by (simp add: r1 r2 r3)
  with h1 h2 show ?thesis by simp
qed

theorem match_accepted_counterexample:
  "vs_ex ''Cosas'' = [(''CATEGORY_ID_L3: MLA3'', 7)] \<and>
   match_category vs_ex ''Cosas'' = Inl IndexError \<and>
   resolved vs_ex (plan_ex [''Cosas'']) = []"
  by code_simp

section \<open>Dropped proposals\<close>

lemma count_list_filter:
  "count_list (filter P xs) x = (if P x then count_list xs x else 0)"
  by (induction xs) auto

lemma unmatched_filter:
  "isl (match_category vs n) \<Longrightarrow>
   filter (\<lambda>r. \<not> isl r) (map (match_category vs) (map name (filter (\<lambda>p. name p \<noteq> n) cats))) =
   filter (\<lambda>r. \<not> isl r) (map (match_category vs) (map name cats))"
  by (induction cats) auto

lemma resolved_without:
  "isl (match_category vs n) \<Longrightarrow>
   resolved vs (plan\<lparr>categories := filter (\<lambda>p. name p \<noteq> n) (categories plan)\<rparr>) =
   resolved vs plan"
proof -
  assume h: "isl (match_category vs n)"
  have c: "categories (plan\<lparr>categories := filter (\<lambda>p. name p \<noteq> n) (categories plan)\<rparr>) =
      filter (\<lambda>p. name p \<noteq> n) (categories plan)"
    by simp
  show ?thesis unfolding resolved_eq c unmatched_filter [OF h] ..
qed

lemma resolved_not_unmatched:
  assumes "isl (match_category vs n)" and "c \<in> set (resolved vs plan)"
  shows "category_raw c \<noteq> n"
proof
  assume eq: "category_raw c = n"
  from assms(2) obtain m where m: "match_category vs m = Inr c"
    unfolding resolved_iff by blast
  from match_category_raw [OF m] eq have "m = n" by simp
  with m assms(1) show False by simp
qed

lemma build_loop_raw:
  "build_loop sr cats acc = Inr cars \<Longrightarrow>
   category_raw ` set cars \<subseteq> category_raw ` set acc \<union> category_raw ` set cats"
proof (induction cats arbitrary: acc)
  case Nil
  then show ?case by auto
next
  case (Cons c cats)
  from Cons.prems obtain k where k: "build_carousel sr c = Inr k"
    and rest: "build_loop sr cats (acc @ [k]) = Inr cars"
    by (auto split: sum.splits)
  from build_carousel_fields [OF k] have "category_raw k = category_raw c" by simp
  with Cons.IH [OF rest] show ?case by auto
qed

lemma join_questions_without:
  "category_raw k \<noteq> n \<Longrightarrow>
   join_questions (filter (\<lambda>p. name p \<noteq> n) cats) k = join_questions cats k"
proof -
  assume "category_raw k \<noteq> n"
  then have "filter (\<lambda>x. name x = category_raw k) (filter (\<lambda>p. name p \<noteq> n) cats) =
      filter (\<lambda>x. name x = category_raw k) cats"
    by (auto simp: filter_filter intro!: filter_cong)
  then show ?thesis by (simp add: join_questions_def)
qed

lemma join_loop_without:
  "\<forall>k \<in> set cars. category_raw k \<noteq> n \<Longrightarrow>
   join_loop (filter (\<lambda>p. name p \<noteq> n) cats) cars = join_loop cats cars"
  by (induction cars) (auto simp: join_questions_without split: sum.splits)

text \<open>
  A proposal that the handler of step 3 drops leaves no trace but its warning: the run
  gives what it gives on the plan without the proposal.
\<close>

lemma chat_without:
  assumes "isl (match_category vs n)"
  shows "fst (chat vs get (plan\<lparr>categories := filter (\<lambda>p. name p \<noteq> n) (categories plan)\<rparr>)) =
     fst (chat vs get plan)"
proof -
  let ?plan' = "plan\<lparr>categories := filter (\<lambda>p. name p \<noteq> n) (categories plan)\<rparr>"
  let ?ids = "remdups (map category_id (resolved vs plan))"
  from fetch_loop_shape [of ?ids get "[]"] obtain r k
    where eq: "\<And>t. fetch_loop get ?ids [] t =
        (r, t\<lparr>requests := requests t @ map search_url (take k ?ids)\<rparr>)"
    by blast
  show ?thesis
  proof (cases r)
    case (Inl e)
    then show ?thesis
      by (simp add: chat_unfold resolved_without [OF assms] eq)
  next
    case (Inr sr)
    show ?thesis
    proof (cases "build_loop sr (resolved vs plan) []")
      case (Inl e)
      with Inr show ?thesis
        by (simp add: chat_unfold resolved_without [OF assms] eq)
    next
      case cars: (Inr cars)
      have "\<forall>k \<in> set cars. category_raw k \<noteq> n"
      proof
        fix k assume "k \<in> set cars"
        with build_loop_raw [OF cars] obtain c where c: "c \<in> set (resolved vs plan)"
          and eq: "category_raw k = category_raw c" by auto
        from resolved_not_unmatched [OF assms c] eq show "category_raw k \<noteq> n" by simp
      qed
      then have "join_loop (filter (\<lambda>p. name p \<noteq> n) (categories plan)) cars =
          join_loop (categories plan) cars"
        by (rule join_loop_without)
      with Inr cars show ?thesis
        by (simp add: chat_unfold resolved_without [OF assms] eq split: sum.splits)
    qed
  qed
qed

lemma carousel_raw_resolved:
  assumes "fst (chat vs get plan) = Inr resp" and "j \<in> set (carousels resp)"
  shows "category_raw j \<in> category_raw ` set (resolved vs plan)"
proof -
  from chat_returns [OF assms(1)] obtain sr :: "search_result list"
    where all2: "list_all2 (\<lambda>c j. \<exists>b p.
         find (\<lambda>x. batch_category_id x = category_id c) sr = Some b \<and>
         find (\<lambda>x. name x = category_raw c) (categories plan) = Some p \<and>
         j = \<lparr>category_raw = category_raw c, category_id = category_id c,
              category_name = category_name c, domain_id = domain_id c,
              similarity_score = similarity_score c,
              items = take ITEMS_BY_CAROUSEL
                (filter (\<lambda>x. listing_domain_id x = domain_id c) (results b)),
              carousel_questions = questions p\<rparr>)
       (resolved vs plan) (carousels resp)"
    by blast
  from list_all2_in_set2 [OF all2 assms(2)] obtain c b p
    where c: "c \<in> set (resolved vs plan)"
      and b: "find (\<lambda>x. batch_category_id x = category_id c) sr = Some b"
      and p: "find (\<lambda>x. name x = category_raw c) (categories plan) = Some p"
      and j: "j = \<lparr>category_raw = category_raw c, category_id = category_id c,
              category_name = category_name c, domain_id = domain_id c,
              similarity_score = similarity_score c,
              items = take ITEMS_BY_CAROUSEL
                (filter (\<lambda>x. listing_domain_id x = domain_id c) (results b)),
              carousel_questions = questions p\<rparr>"
    by blast
  from j have "category_raw j = category_raw c" by simp
  with c show ?thesis by blast
qed

lemma unmatched_dropped:
  assumes "isl (match_category vs n)"
  shows "(\<forall>c \<in> set (resolved vs plan). category_raw c \<noteq> n) \<and>
     count_list (warnings (snd (chat vs get plan))) n =
       count_list (map name (categories plan)) n \<and>
     fst (chat vs get plan) =
       fst (chat vs get (plan\<lparr>categories := filter (\<lambda>p. name p \<noteq> n) (categories plan)\<rparr>)) \<and>
     (\<forall>resp. fst (chat vs get plan) = Inr resp \<longrightarrow>
        (\<forall>j \<in> set (carousels resp). category_raw j \<noteq> n))"
proof -
  have a: "\<forall>c \<in> set (resolved vs plan). category_raw c \<noteq> n"
    using resolved_not_unmatched [OF assms] by blast
  from chat_trace [of vs plan get] have "warnings (snd (chat vs get plan)) =
      filter (\<lambda>n. isl (match_category vs n)) (map name (categories plan))"
    by auto
  then have b: "count_list (warnings (snd (chat vs get plan))) n =
       count_list (map name (categories plan)) n"
    using assms by (simp add: count_list_filter)
  have d: "category_raw j \<noteq> n"
    if resp: "fst (chat vs get plan) = Inr resp" and j: "j \<in> set (carousels resp)" for resp j
  proof -
    from carousel_raw_resolved [OF resp j] obtain c where "c \<in> set (resolved vs plan)"
      and "category_raw j = category_raw c" by auto
    with a show ?thesis by simp
  qed
  from a b chat_without [OF assms, of get plan] d show ?thesis by simp
qed

text \<open>
  A proposal whose nearest-neighbour query returns nothing: the indexing raises
  \<^verbatim>\<open>IndexError\<close>, which the handler catches. No resolved category is produced for the
  proposal, \<^verbatim>\<open>logging.warning\<close> is called once for each of its occurrences in the plan,
  the run goes on and gives what it gives on the plan without the proposal, and no
  carousel of a response is for it.
\<close>

lemma unmatched_proposal_dropped:
  assumes "vs n = []"
  shows "match_category vs n = Inl IndexError \<and>
     (\<forall>c \<in> set (resolved vs plan). category_raw c \<noteq> n) \<and>
     count_list (warnings (snd (chat vs get plan))) n =
       count_list (map name (categories plan)) n \<and>
     fst (chat vs get plan) =
       fst (chat vs get (plan\<lparr>categories := filter (\<lambda>p. name p \<noteq> n) (categories plan)\<rparr>)) \<and>
     (\<forall>resp. fst (chat vs get plan) = Inr resp \<longrightarrow>
        (\<forall>j \<in> set (carousels resp). category_raw j \<noteq> n))"
proof -
  from assms have m: "match_category vs n = Inl IndexError" by (rule match_category_miss)
  then have "isl (match_category vs n)" by simp
  from unmatched_dropped [OF this, of plan get] m show ?thesis by simp
qed

lemma unmatched_proposal_dropped_example:
  "vs_ex ''Ollas'' = [] \<and>
   count_list (warnings (snd (chat vs_ex get_ex (plan_ex [''Licuadoras'', ''Ollas'', ''Batidoras'']))))
     ''Ollas'' = 1 \<and>
   fst (chat vs_ex get_ex (plan_ex [''Licuadoras'', ''Ollas'', ''Batidoras''])) =
     fst (chat vs_ex get_ex (plan_ex [''Licuadoras'', ''Batidoras''])) \<and>
   map category_raw (carousels (projr (fst (chat vs_ex get_ex
     (plan_ex [''Licuadoras'', ''Ollas'', ''Batidoras''])))))
     = [''Licuadoras'', ''Batidoras'']"
proof -
  let ?plan = "plan_ex [''Licuadoras'', ''Ollas'', ''Batidoras'']"
  have h: "vs_ex ''Ollas'' = []" by (simp add: vs_ex_def)
  have p: "?plan\<lparr>categories := filter (\<lambda>p. name p \<noteq> ''Ollas'') (categories ?plan)\<rparr> =
      plan_ex [''Licuadoras'', ''Batidoras'']"
    by (simp add: plan_ex_def proposal_def)
  have c: "count_list (map name (categories ?plan)) ''Ollas'' = 1"
    by (simp add: plan_ex_def proposal_def)
  have r: "map category_raw (carousels (projr (fst (chat vs_ex get_ex ?plan)))) =
      [''Licuadoras'', ''Batidoras'']"
    by code_simp
  from unmatched_proposal_dropped [of vs_ex "''Ollas''" ?plan get_ex, OF h]
  have "count_list (warnings (snd (chat vs_ex get_ex ?plan))) ''Ollas'' =
       count_list (map name (categories ?plan)) ''Ollas''"
    and "fst (chat vs_ex get_ex ?plan) = fst (chat vs_ex get_ex
       (?plan\<lparr>categories := filter (\<lambda>p. name p \<noteq> ''Ollas'') (categories ?plan)\<rparr>))"
    by blast+
  with h p c r show ?thesis by simp
qed

lemma warning_never_emitted:
  "emitted (snd (chat vs get plan)) = [] \<and>
   logging_errors (snd (chat vs get plan)) =
     map (\<lambda>n. (''Category not matched for:'', [n])) (warnings (snd (chat vs get plan)))"
  using chat_trace [of vs plan get] by auto

text \<open>
  C6. At a plan with a proposal whose nearest-neighbour query returns nothing, the
  proposal is dropped and the run goes on, but no warning is logged: the handler of step
  3 passes the category to \<^verbatim>\<open>logging.warning\<close> as an argument of a message that has no
  conversion for it, the formatting raises in the logging handler, which reports the call
  on the error stream, and no warning record is emitted.
\<close>

theorem unmatched_warning_not_logged:
  "vs_ex ''Ollas'' = [] \<and>
   get_message ''Category not matched for:'' [''Ollas''] = Inl TypeError \<and>
   warnings (snd (chat vs_ex get_ex (plan_ex [''Licuadoras'', ''Ollas'', ''Batidoras'']))) =
     [''Ollas''] \<and>
   emitted (snd (chat vs_ex get_ex (plan_ex [''Licuadoras'', ''Ollas'', ''Batidoras'']))) = [] \<and>
   logging_errors (snd (chat vs_ex get_ex (plan_ex [''Licuadoras'', ''Ollas'', ''Batidoras'']))) =
     [(''Category not matched for:'', [''Ollas''])] \<and>
   map category_raw (carousels (projr (fst (chat vs_ex get_ex
     (plan_ex [''Licuadoras'', ''Ollas'', ''Batidoras''])))))
     = [''Licuadoras'', ''Batidoras'']"
  by code_simp

text \<open>
  C10. When the nearest-neighbour query of a proposal returns a match whose descriptor
  has fewer than eight lines, reading its fields raises \<^verbatim>\<open>IndexError\<close>, which the same
  handler catches: the proposal is dropped as an unmatched one is, with a warning, no
  resolved category and no carousel, and the run goes on.
\<close>

theorem malformed_descriptor_dropped:
  assumes "vs n = (doc, s) # rest" and "length (str_split newline doc) < 8"
  shows "match_category vs n = Inl IndexError \<and>
     (\<forall>c \<in> set (resolved vs plan). category_raw c \<noteq> n) \<and>
     count_list (warnings (snd (chat vs get plan))) n =
       count_list (map name (categories plan)) n \<and>
     fst (chat vs get plan) =
       fst (chat vs get (plan\<lparr>categories := filter (\<lambda>p. name p \<noteq> n) (categories plan)\<rparr>)) \<and>
     (\<forall>resp. fst (chat vs get plan) = Inr resp \<longrightarrow>
        (\<forall>j \<in> set (carousels resp). category_raw j \<noteq> n))"
proof -
  from match_category_hit [of vs n doc s rest, OF assms(1)] assms(2)
  have m: "match_category vs n = Inl IndexError" by simp
  then have "isl (match_category vs n)" by simp
  from unmatched_dropped [OF this, of plan get] m show ?thesis by simp
qed

theorem malformed_descriptor_dropped_witness:
  "vs_ex ''Cosas'' = [(''CATEGORY_ID_L3: MLA3'', 7)] \<and>
   length (str_split newline ''CATEGORY_ID_L3: MLA3'') < 8 \<and>
   match_category vs_ex ''Cosas'' = Inl IndexError \<and>
   count_list (warnings (snd (chat vs_ex get_all (plan_ex [''Cosas'', ''Sartenes'']))))
     ''Cosas'' = 1 \<and>
   fst (chat vs_ex get_all (plan_ex [''Cosas'', ''Sartenes''])) =
     fst (chat vs_ex get_all (plan_ex [''Sartenes''])) \<and>
   map category_raw (carousels (projr (fst (chat vs_ex get_all (plan_ex [''Cosas'', ''Sartenes''])))))
     = [''Sartenes'']"
proof -
  let ?plan = "plan_ex [''Cosas'', ''Sartenes'']"
  have h1: "vs_ex ''Cosas'' = (''CATEGORY_ID_L3: MLA3'', 7) # []" by (simp add: vs_ex_def)
  have h2: "length (str_split newline ''CATEGORY_ID_L3: MLA3'') < 8" by code_simp
  have p: "?plan\<lparr>categories := filter (\<lambda>p. name p \<noteq> ''Cosas'') (categories ?plan)\<rparr> =
      plan_ex [''Sartenes'']"
    by (simp add: plan_ex_def proposal_def)
  have c: "count_list (map name (categories ?plan)) ''Cosas'' = 1"
    by (simp add: plan_ex_def proposal_def)
  have r: "map category_raw (carousels (projr (fst (chat vs_ex get_all ?plan)))) = [''Sartenes'']"
    by code_simp
  from malformed_descriptor_dropped
    [of vs_ex "''Cosas''" "''CATEGORY_ID_L3: MLA3''" 7 "[]" ?plan get_all, OF h1 h2]
  have "match_category vs_ex ''Cosas'' = Inl IndexError"
    and "count_list (warnings (snd (chat vs_ex get_all ?plan))) ''Cosas'' =
       count_list (map name (categories ?plan)) ''Cosas''"
    and "fst (chat vs_ex get_all ?plan) = fst (chat vs_ex get_all
       (?plan\<lparr>categories := filter (\<lambda>p. name p \<noteq> ''Cosas'') (categories ?plan)\<rparr>))"
    by blast+
  with h1 h2 p c r show ?thesis by simp
qed

end
